theory Spec2Isabelle
  imports Complex_Main "HOL-Library.AList"
begin

section \<open>Data model of \<open>src/lib/fundsTransfer.js\<close>\<close>

text \<open>
  The module keeps four tables in the variables of a closure: \<open>accounts\<close>,
  \<open>transactions\<close>, \<open>pendingTransactions\<close> and \<open>completedTransactions\<close>
  (\<open>history\<close> and \<open>failedTransactions\<close> are declared and never used). They are the
  fields of the record \<open>state\<close>, which every operation takes and returns.

  \<^item> A JavaScript number is modelled as an exact rational: rounding of doubles is outside
    the model, and so are the infinities.
  \<^item> An object used as a dictionary is a map from its own property names to their values;
    account ids and transaction ids are strings, and the names an object inherits from
    \<open>Object.prototype\<close> are outside the model. The inner objects of
    \<open>pendingTransactions\<close>, whose keys the scheduler enumerates with \<open>Object.keys\<close>,
    are association lists in insertion order (the order JavaScript gives to keys that are
    not array indices, as transaction ids are).
  \<^item> \<open>pendingTransactions\<close> holds a copy of each record (\<open>{...newTransaction}\<close>) while
    \<open>completedTransactions\<close> holds a reference to the record object of \<open>transactions\<close>;
    the reference is modelled by the id of the record.
  \<^item> A \<open>Date\<close> is the record of what its getters return: \<open>getTime\<close> in milliseconds and
    the calendar fields in local time.
\<close>

record account =
  balance :: rat
  pastTransactions :: "string list"

record date =
  getTime :: int
  getFullYear :: int
  getMonth :: int
  getDate :: int
  getHours :: int
  getMinutes :: int

text \<open>A value passed as \<open>transactionTime\<close>: a \<open>Date\<close> with a time value, a \<open>Date\<close> whose
  time value is \<open>NaN\<close>, or anything that is not a \<open>Date\<close>.\<close>

datatype timevalue = ValidDate date | InvalidDate | NotADate

text \<open>A value passed as \<open>amount\<close> is represented by what \<open>Number(amount)\<close> makes of it.\<close>

datatype jsnumber = Num rat | NaN

record transaction =
  transactionTime :: date
  txtype :: string
  credit :: string
  debit :: string
  txid :: string
  amount :: rat
  status :: string
  timeStamp :: string

text \<open>The argument of \<open>addTransaction\<close>; \<open>None\<close> is a property that is \<open>undefined\<close>.\<close>

record request =
  reqTransactionTime :: "timevalue option"
  reqType :: "string option"
  reqCredit :: "string option"
  reqDebit :: "string option"
  reqAmount :: "jsnumber option"

record state =
  accounts :: "string \<rightharpoonup> account"
  transactions :: "string \<rightharpoonup> transaction"
  pendingTransactions :: "string \<rightharpoonup> (string \<times> transaction) list"
  completedTransactions :: "string \<rightharpoonup> string list"

datatype error = TypeError

text \<open>A call either returns a value or throws; the tables keep what was written to them
  before the throw, so both outcomes carry the state.\<close>

type_synonym 'a outcome = "(error \<times> state) + ('a \<times> state)"

definition REFUND :: string where "REFUND = ''refund''"
definition FUND :: string where "FUND = ''fund''"
definition PENDING :: string where "PENDING = ''pending''"
definition COMPLETED :: string where "COMPLETED = ''completed''"
definition REJECTED :: string where "REJECTED = ''rejected''"
definition ERROR :: string where "ERROR = ''error''"

definition INITIAL_BALANCE :: rat where "INITIAL_BALANCE = 100"

definition allowedTransactionTypes :: "string list" where
  "allowedTransactionTypes = [REFUND, FUND]"

text \<open>The tables as the module declares them, before \<open>init\<close>.\<close>

definition initialState :: state where
  "initialState = \<lparr>accounts = Map.empty, transactions = Map.empty,
     pendingTransactions = Map.empty, completedTransactions = Map.empty\<rparr>"

text \<open>\<open>init\<close> replaces the account table; the timer it starts calls \<open>timeTickCheck\<close>.\<close>

definition init :: "state \<Rightarrow> state" where
  "init s = s\<lparr>accounts :=
     [''A'' \<mapsto> \<lparr>balance = INITIAL_BALANCE, pastTransactions = []\<rparr>,
      ''B'' \<mapsto> \<lparr>balance = 0, pastTransactions = []\<rparr>]\<rparr>"

section \<open>Time stamps\<close>

fun isValidDate :: "timevalue \<Rightarrow> bool" where
  "isValidDate (ValidDate d) = True"
| "isValidDate InvalidDate = False"
| "isValidDate NotADate = False"

text \<open>The decimal numeral JavaScript writes when a number is added to a string.\<close>

fun digitsOf :: "nat \<Rightarrow> string" where
  "digitsOf n = (if n < 10 then [''0123456789'' ! n]
     else digitsOf (n div 10) @ [''0123456789'' ! (n mod 10)])"

definition numberToString :: "int \<Rightarrow> string" where
  "numberToString i = (if i < 0 then ''-'' @ digitsOf (nat (- i)) else digitsOf (nat i))"

definition formatTimeStampNumber :: "int \<Rightarrow> string" where
  "formatTimeStampNumber num = (if num < 10 then ''0'' @ numberToString num else numberToString num)"

text \<open>\<open>generateTimeStamp\<close> returns \<open>false\<close> (here \<open>None\<close>) when \<open>isValidDate\<close> fails, that
  is for anything but a \<open>ValidDate\<close>.\<close>

fun generateTimeStamp :: "timevalue \<Rightarrow> string option" where
  "generateTimeStamp (ValidDate time) =
     (let timeStampYear = formatTimeStampNumber (getFullYear time - 2000);
          timeStampMonth = formatTimeStampNumber (getMonth time + 1);
          timeStampDay = formatTimeStampNumber (getDate time);
          timeStampHour = formatTimeStampNumber (getHours time);
          timeStampMinute = formatTimeStampNumber (getMinutes time)
      in Some (timeStampYear @ ''-'' @ timeStampMonth @ ''-'' @ timeStampDay @ ''-'' @
               timeStampHour @ ''-'' @ timeStampMinute))"
| "generateTimeStamp InvalidDate = None"
| "generateTimeStamp NotADate = None"

section \<open>Validation and execution\<close>

text \<open>
  \<open>validateTransaction\<close>, check by check. A stored amount is a number, so \<open>!amount\<close> is
  \<open>amount = 0\<close> and the \<open>isNaN\<close> test cannot fire; \<open>!credit\<close> of a string is
  \<open>credit = ''''\<close>.
\<close>

definition validateTransaction :: "transaction option \<Rightarrow> state \<Rightarrow> bool" where
  "validateTransaction transaction s =
     (case transaction of
        None \<Rightarrow> False
      | Some t \<Rightarrow>
          if amount t = 0 \<or> credit t = [] \<or> debit t = [] then False
          else if amount t < 0 then False
          else (case (accounts s (credit t), accounts s (debit t)) of
                  (Some c, Some d) \<Rightarrow>
                    if balance c < 0 then False
                    else if balance c - amount t < 0 then False
                    else True
                | _ \<Rightarrow> False))"

text \<open>Lines 215 to 224 of \<open>executeTransaction\<close>: the two balance updates, the two
  \<open>filter\<close> assignments (the second one reads the list of the credit account) and the
  two \<open>push\<close> calls, each on the table the previous statement left. The accounts exist
  when this runs, \<open>validateTransaction\<close> having returned true.\<close>

definition transferFunds :: "string \<Rightarrow> string \<Rightarrow> rat \<Rightarrow> string \<Rightarrow> (string \<rightharpoonup> account) \<Rightarrow> (string \<rightharpoonup> account)" where
  "transferFunds cr db amt transactionId acc0 =
     (let acc1 = acc0(cr \<mapsto> (the (acc0 cr))\<lparr>balance := balance (the (acc0 cr)) - amt\<rparr>);
          acc2 = acc1(db \<mapsto> (the (acc1 db))\<lparr>balance := balance (the (acc1 db)) + amt\<rparr>);
          acc3 = acc2(cr \<mapsto> (the (acc2 cr))\<lparr>pastTransactions :=
                   filter (\<lambda>i. i \<noteq> transactionId) (pastTransactions (the (acc2 cr)))\<rparr>);
          acc4 = acc3(db \<mapsto> (the (acc3 db))\<lparr>pastTransactions :=
                   filter (\<lambda>i. i \<noteq> transactionId) (pastTransactions (the (acc3 cr)))\<rparr>);
          acc5 = acc4(cr \<mapsto> (the (acc4 cr))\<lparr>pastTransactions :=
                   pastTransactions (the (acc4 cr)) @ [transactionId]\<rparr>);
          acc6 = acc5(db \<mapsto> (the (acc5 db))\<lparr>pastTransactions :=
                   pastTransactions (the (acc5 db)) @ [transactionId]\<rparr>)
      in acc6)"

text \<open>\<open>completedTransactions[timeStamp][transactionId] = transaction\<close>: a key that is
  already there keeps its place.\<close>

definition addCompleted :: "string \<Rightarrow> string \<Rightarrow> (string \<rightharpoonup> string list) \<Rightarrow> (string \<rightharpoonup> string list)" where
  "addCompleted ts transactionId cmp =
     (let ids = (case cmp ts of None \<Rightarrow> [] | Some l \<Rightarrow> l)
      in cmp(ts \<mapsto> (if transactionId \<in> set ids then ids else ids @ [transactionId])))"

text \<open>\<open>executeTransaction\<close> returns \<open>COMPLETED\<close> or \<open>ERROR\<close>. The \<open>delete\<close> of line 228
  throws a \<open>TypeError\<close> when \<open>pendingTransactions\<close> has no object for the time stamp
  of the record; the balances, the lists and the status are written by then.\<close>

definition executeTransaction :: "string \<Rightarrow> state \<Rightarrow> string outcome" where
  "executeTransaction transactionId s =
     (if transactionId = [] then Inr (ERROR, s)
      else case transactions s transactionId of
        None \<Rightarrow> Inr (ERROR, s)
      | Some transaction \<Rightarrow>
          if \<not> validateTransaction (Some transaction) s then Inr (ERROR, s)
          else
            let s1 = s\<lparr>accounts := transferFunds (credit transaction) (debit transaction)
                         (amount transaction) transactionId (accounts s)\<rparr>;
                s2 = s1\<lparr>transactions := (transactions s1)(transactionId \<mapsto>
                         transaction\<lparr>status := COMPLETED\<rparr>)\<rparr>
            in case pendingTransactions s2 (timeStamp transaction) of
                 None \<Rightarrow> Inl (TypeError, s2)
               | Some bucket \<Rightarrow>
                   let s3 = s2\<lparr>pendingTransactions := (pendingTransactions s2)
                              (timeStamp transaction \<mapsto> AList.delete transactionId bucket)\<rparr>;
                       s4 = s3\<lparr>completedTransactions := addCompleted (timeStamp transaction)
                              transactionId (completedTransactions s3)\<rparr>
                   in Inr (COMPLETED, s4))"

section \<open>The scheduler\<close>

text \<open>The callback that \<open>executeScheduledJobs\<close> maps over the keys of a bucket. After an
  \<open>ERROR\<close> it deletes the key from the bucket and writes \<open>REJECTED\<close> into
  \<open>transactions[transactionId]\<close>, which throws when the table has no such record.\<close>

definition scheduledJob :: "string \<Rightarrow> string \<Rightarrow> state \<Rightarrow> (error \<times> state) + state" where
  "scheduledJob nowTimeStamp transactionId s =
     (case executeTransaction transactionId s of
        Inl e \<Rightarrow> Inl e
      | Inr (r, s1) \<Rightarrow>
          if r = ERROR then
            (case pendingTransactions s1 nowTimeStamp of
               None \<Rightarrow> Inl (TypeError, s1)
             | Some bucket \<Rightarrow>
                 let s2 = s1\<lparr>pendingTransactions := (pendingTransactions s1)
                            (nowTimeStamp \<mapsto> AList.delete transactionId bucket)\<rparr>
                 in case transactions s2 transactionId of
                      None \<Rightarrow> Inl (TypeError, s2)
                    | Some t \<Rightarrow> Inr (s2\<lparr>transactions := (transactions s2)
                                   (transactionId \<mapsto> t\<lparr>status := REJECTED\<rparr>)\<rparr>))
          else Inr s1)"

text \<open>\<open>Object.keys(...).map(...)\<close>: the keys are taken once, then visited in order; a
  throw ends the pass.\<close>

fun scheduledJobs :: "string \<Rightarrow> string list \<Rightarrow> state \<Rightarrow> (error \<times> state) + state" where
  "scheduledJobs nowTimeStamp [] s = Inr s"
| "scheduledJobs nowTimeStamp (transactionId # rest) s =
     (case scheduledJob nowTimeStamp transactionId s of
        Inl e \<Rightarrow> Inl e
      | Inr s1 \<Rightarrow> scheduledJobs nowTimeStamp rest s1)"

text \<open>A time stamp used as a property name: the \<open>false\<close> of \<open>generateTimeStamp\<close>
  becomes the string \<open>false\<close>.\<close>

definition propertyKey :: "string option \<Rightarrow> string" where
  "propertyKey v = (case v of None \<Rightarrow> ''false'' | Some ts \<Rightarrow> ts)"

definition executeScheduledJobs :: "timevalue \<Rightarrow> state \<Rightarrow> (error \<times> state) + state" where
  "executeScheduledJobs now s =
     (let nowTimeStamp = propertyKey (generateTimeStamp now)
      in case pendingTransactions s nowTimeStamp of
           None \<Rightarrow> Inr s
         | Some bucket \<Rightarrow> scheduledJobs nowTimeStamp (map fst bucket) s)"

text \<open>\<open>timeTickCheck\<close> reads the clock twice: \<open>now\<close> is the first reading and
  \<open>previousMinute\<close> the second one after its \<open>setMinutes\<close> call.\<close>

definition timeTickCheck :: "date \<Rightarrow> date \<Rightarrow> state \<Rightarrow> (error \<times> state) + state" where
  "timeTickCheck now previousMinute s =
     (case executeScheduledJobs (ValidDate now) s of
        Inl e \<Rightarrow> Inl e
      | Inr s1 \<Rightarrow> executeScheduledJobs (ValidDate previousMinute) s1)"

section \<open>Submission\<close>

text \<open>Lines 320 to 326 of \<open>addTransaction\<close>: the bucket is created when it is missing,
  then a copy of the record is stored under its id in the bucket and in the main table.\<close>

definition storeTransaction :: "transaction \<Rightarrow> state \<Rightarrow> state" where
  "storeTransaction newTransaction s =
     (let bucket = (case pendingTransactions s (timeStamp newTransaction) of
                      None \<Rightarrow> [] | Some b \<Rightarrow> b);
          s1 = s\<lparr>pendingTransactions := (pendingTransactions s)
                 (timeStamp newTransaction \<mapsto>
                    AList.update (txid newTransaction) newTransaction bucket)\<rparr>
      in s1\<lparr>transactions := (transactions s1)(txid newTransaction \<mapsto> newTransaction)\<rparr>)"

text \<open>\<open>addTransaction\<close>; \<open>now\<close> is what \<open>getUtcNow()\<close> returns at line 295 and \<open>newId\<close>
  what \<open>uuidv1()\<close> returns at line 314. The checks come in the order of the source; each
  of them returns \<open>ERROR\<close> before anything is written. The case \<open>ValidDate\<close> is the one
  where \<open>isValidDate(transactionTime)\<close> holds.\<close>

definition addTransaction :: "request \<Rightarrow> date \<Rightarrow> string \<Rightarrow> state \<Rightarrow> string outcome" where
  "addTransaction req now newId s =
     (case (reqTransactionTime req, reqType req, reqCredit req, reqDebit req, reqAmount req) of
        (Some tt, Some ty, Some cr, Some db, Some am) \<Rightarrow>
          (case tt of
             ValidDate time \<Rightarrow>
               if ty \<notin> set allowedTransactionTypes then Inr (ERROR, s)
               else if accounts s cr = None \<or> accounts s db = None then Inr (ERROR, s)
               else (case am of
                  NaN \<Rightarrow> Inr (ERROR, s)
                | Num a \<Rightarrow>
                    if getTime now - getTime time > 0 then Inr (ERROR, s)
                    else (case generateTimeStamp tt of
                       None \<Rightarrow> Inr (ERROR, s)
                     | Some ts \<Rightarrow>
                         let newTransaction = \<lparr>transactionTime = time, txtype = ty, credit = cr,
                               debit = db, txid = newId, amount = a, status = PENDING,
                               timeStamp = ts\<rparr>;
                             s2 = storeTransaction newTransaction s
                         in if generateTimeStamp (ValidDate now) = Some ts then
                              (case executeScheduledJobs (ValidDate now) s2 of
                                 Inl e \<Rightarrow> Inl e
                               | Inr s3 \<Rightarrow> Inr (newId, s3))
                            else Inr (newId, s2)))
           | _ \<Rightarrow> Inr (ERROR, s))
      | _ \<Rightarrow> Inr (ERROR, s))"

section \<open>Properties of states and submissions\<close>


text \<open>The ids that appear in some bucket of the pending index.\<close>

definition pendingIds :: "state \<Rightarrow> string set" where
  "pendingIds s = {k. \<exists>ts b. pendingTransactions s ts = Some b \<and> k \<in> fst ` set b}"

text \<open>The pending index agrees with the main table: the keys of a bucket are distinct, each
  has a \<open>PENDING\<close> record stamped with the bucket's key, and every record has its bucket,
  which lists it while it is \<open>PENDING\<close>.\<close>

definition consistent :: "state \<Rightarrow> bool" where
  "consistent s \<longleftrightarrow>
     (\<forall>ts b. pendingTransactions s ts = Some b \<longrightarrow>
        distinct (map fst b) \<and>
        (\<forall>k\<in>fst ` set b. \<exists>t. transactions s k = Some t \<and> timeStamp t = ts \<and> status t = PENDING)) \<and>
     (\<forall>k t. transactions s k = Some t \<longrightarrow>
        (\<exists>b. pendingTransactions s (timeStamp t) = Some b \<and> (status t = PENDING \<longrightarrow> k \<in> fst ` set b)))"

text \<open>A status either stays, or leaves \<open>PENDING\<close> for one of the two final values.\<close>

definition statusStep :: "string \<Rightarrow> string \<Rightarrow> bool" where
  "statusStep a b \<longleftrightarrow> b = a \<or> (a = PENDING \<and> (b = COMPLETED \<or> b = REJECTED))"

text \<open>The submission-time checks of section 4.4 of the specification: every field
  present, a valid time, an allowed type, both accounts known, a numeric amount, and a time
  that is not before \<open>now\<close>.\<close>

definition validSubmission :: "request \<Rightarrow> date \<Rightarrow> state \<Rightarrow> bool" where
  "validSubmission req now s \<longleftrightarrow>
     (case reqTransactionTime req of
        Some (ValidDate time) \<Rightarrow> getTime now \<le> getTime time | _ \<Rightarrow> False) \<and>
     (reqType req = Some REFUND \<or> reqType req = Some FUND) \<and>
     (case reqCredit req of Some cr \<Rightarrow> cr \<in> dom (accounts s) | None \<Rightarrow> False) \<and>
     (case reqDebit req of Some db \<Rightarrow> db \<in> dom (accounts s) | None \<Rightarrow> False) \<and>
     (case reqAmount req of Some (Num a) \<Rightarrow> True | _ \<Rightarrow> False)"

text \<open>The state a call leaves behind, whether it returns or throws.\<close>

definition stateAfter :: "'a outcome \<Rightarrow> state" where
  "stateAfter r = (case r of Inl (e, s) \<Rightarrow> s | Inr (v, s) \<Rightarrow> s)"

definition stateAfterPass :: "(error \<times> state) + state \<Rightarrow> state" where
  "stateAfterPass r = (case r of Inl (e, s) \<Rightarrow> s | Inr s \<Rightarrow> s)"

text \<open>The states the module can be in: it starts with empty tables, and each step is a
  call of \<open>init\<close>, of \<open>addTransaction\<close> (the id generator returning an id that is not in
  the main table), of the exported \<open>executeTransaction\<close>, or one pass of the scheduler
  (\<open>timeTickCheck\<close> makes two).\<close>

inductive reachable :: "state \<Rightarrow> bool" where
  start: "reachable initialState"
| init: "reachable s \<Longrightarrow> reachable (init s)"
| add: "reachable s \<Longrightarrow> transactions s newId = None \<Longrightarrow>
        reachable (stateAfter (addTransaction req now newId s))"
| exec: "reachable s \<Longrightarrow> reachable (stateAfter (executeTransaction transactionId s))"
| tick: "reachable s \<Longrightarrow> reachable (stateAfterPass (executeScheduledJobs (ValidDate now) s))"

section \<open>Sample dates, requests and states\<close>


definition clockNow :: date where
  "clockNow = \<lparr>getTime = 1704105025000, getFullYear = 2024, getMonth = 0, getDate = 1,
     getHours = 10, getMinutes = 30\<rparr>"

definition nextMinute :: date where
  "nextMinute = \<lparr>getTime = 1704105060000, getFullYear = 2024, getMonth = 0, getDate = 1,
     getHours = 10, getMinutes = 31\<rparr>"

text \<open>A well-formed request of type \<open>fund\<close>.\<close>

definition fundRequest :: "string \<Rightarrow> string \<Rightarrow> rat \<Rightarrow> date \<Rightarrow> request" where
  "fundRequest cr db a time = \<lparr>reqTransactionTime = Some (ValidDate time), reqType = Some FUND,
     reqCredit = Some cr, reqDebit = Some db, reqAmount = Some (Num a)\<rparr>"

text \<open>After \<open>init\<close>, a transfer of 10 from A to B is submitted at 10:30:25 for 10:31.\<close>

definition waitingState :: state where
  "waitingState = stateAfter (addTransaction (fundRequest ''A'' ''B'' 10 nextMinute) clockNow
     ''t1'' (init initialState))"




text \<open>After \<open>init\<close>, a transfer of 10 from A to A is submitted for the current minute, then
  a transfer of 10 from A to B.\<close>

definition selfState :: state where
  "selfState = stateAfter (addTransaction (fundRequest ''A'' ''A'' 10 clockNow) clockNow
     ''t1'' (init initialState))"

definition selfThenState :: state where
  "selfThenState = stateAfter (addTransaction (fundRequest ''A'' ''B'' 10 clockNow) clockNow
     ''t2'' selfState)"

text \<open>A pending index whose bucket for 10:30 lists the id \<open>ghost\<close>, which the main table
  does not have, before the pending transfer \<open>t2\<close> of 10 from A to B.\<close>

definition sampleTransfer :: "string \<Rightarrow> transaction" where
  "sampleTransfer i = \<lparr>transactionTime = clockNow, txtype = FUND, credit = ''A'', debit = ''B'',
     txid = i, amount = 10, status = PENDING, timeStamp = ''24-01-01-10-30''\<rparr>"


section \<open>Execution and the balances\<close>

lemma status_distinct [simp]:
  "PENDING \<noteq> COMPLETED" "PENDING \<noteq> REJECTED" "COMPLETED \<noteq> REJECTED"
  "COMPLETED \<noteq> PENDING" "REJECTED \<noteq> PENDING" "REJECTED \<noteq> COMPLETED"
  "COMPLETED \<noteq> ERROR" "ERROR \<noteq> COMPLETED"
  by (simp_all add: PENDING_def COMPLETED_def REJECTED_def ERROR_def)




lemma executeTransaction_cases:
  obtains (noId) "transactionId = []" "executeTransaction transactionId s = Inr (ERROR, s)"
  | (notFound) "transactions s transactionId = None" "executeTransaction transactionId s = Inr (ERROR, s)"
  | (invalid) t where "transactionId \<noteq> []" "transactions s transactionId = Some t" "\<not> validateTransaction (Some t) s"
      "executeTransaction transactionId s = Inr (ERROR, s)"
  | (noBucket) t where "transactionId \<noteq> []" "transactions s transactionId = Some t" "validateTransaction (Some t) s"
      "pendingTransactions s (timeStamp t) = None"
      "executeTransaction transactionId s = Inl (TypeError,
         s\<lparr>accounts := transferFunds (credit t) (debit t) (amount t) transactionId (accounts s),
           transactions := (transactions s)(transactionId \<mapsto> t\<lparr>status := COMPLETED\<rparr>)\<rparr>)"
  | (success) t b where "transactionId \<noteq> []" "transactions s transactionId = Some t" "validateTransaction (Some t) s"
      "pendingTransactions s (timeStamp t) = Some b"
      "executeTransaction transactionId s = Inr (COMPLETED,
         s\<lparr>accounts := transferFunds (credit t) (debit t) (amount t) transactionId (accounts s),
           transactions := (transactions s)(transactionId \<mapsto> t\<lparr>status := COMPLETED\<rparr>),
           pendingTransactions := (pendingTransactions s)(timeStamp t \<mapsto> AList.delete transactionId b),
           completedTransactions := addCompleted (timeStamp t) transactionId (completedTransactions s)\<rparr>)"
proof (cases "transactionId = []")
  case True
  then show ?thesis using noId by (simp add: executeTransaction_def)
next
  case nonempty: False
  show ?thesis
  proof (cases "transactions s transactionId")
    case None
    then show ?thesis using notFound nonempty by (simp add: executeTransaction_def)
  next
    case (Some t)
    show ?thesis
    proof (cases "validateTransaction (Some t) s")
      case False
      then show ?thesis using invalid[of t] nonempty Some by (simp add: executeTransaction_def)
    next
      case True
      show ?thesis
      proof (cases "pendingTransactions s (timeStamp t)")
        case None
        then show ?thesis using noBucket[of t] nonempty Some True
          by (simp add: executeTransaction_def Let_def)
      next
        case (Some b)
        then show ?thesis using success[of t b] nonempty \<open>transactions s transactionId = Some t\<close> True
          by (simp add: executeTransaction_def Let_def)
      qed
    qed
  qed
qed




section \<open>Consistency of the pending index\<close>

lemma keys_delete: "fst ` set (AList.delete k b) = fst ` set b - {k}"
proof -
  have "fst ` set (AList.delete k b) = set (map fst (AList.delete k b))" by simp
  also have "\<dots> = fst ` set b - {k}" unfolding delete_keys by auto
  finally show ?thesis .
qed

lemma consistentD1:
  assumes "consistent s" and "pendingTransactions s ts = Some b"
  shows "distinct (map fst b)"
    and "k \<in> fst ` set b \<Longrightarrow> \<exists>t. transactions s k = Some t \<and> timeStamp t = ts \<and> status t = PENDING"
  using assms unfolding consistent_def by blast+

lemma consistentD2:
  assumes "consistent s" and "transactions s k = Some t"
  shows "\<exists>b. pendingTransactions s (timeStamp t) = Some b \<and> (status t = PENDING \<longrightarrow> k \<in> fst ` set b)"
  using assms unfolding consistent_def by blast

lemma consistent_settle:
  assumes con: "consistent s"
    and rec: "transactions s k = Some t"
    and buc: "pendingTransactions s (timeStamp t) = Some b"
    and X: "X \<noteq> PENDING"
    and tr': "transactions s' = (transactions s)(k \<mapsto> t\<lparr>status := X\<rparr>)"
    and pe': "pendingTransactions s' = (pendingTransactions s)(timeStamp t \<mapsto> AList.delete k b)"
  shows "consistent s'"
  unfolding consistent_def
proof (intro conjI allI impI)
  fix ts b' assume b': "pendingTransactions s' ts = Some b'"
  show "distinct (map fst b')"
  proof (cases "ts = timeStamp t")
    case True
    then have "b' = AList.delete k b" using b' pe' by simp
    then show ?thesis using consistentD1(1)[OF con buc] by (simp add: distinct_delete)
  next
    case False
    then have "pendingTransactions s ts = Some b'" using b' pe' by simp
    then show ?thesis using consistentD1(1)[OF con] by blast
  qed
next
  fix ts b' assume b': "pendingTransactions s' ts = Some b'"
  show "\<forall>k'\<in>fst ` set b'. \<exists>t'. transactions s' k' = Some t' \<and> timeStamp t' = ts \<and> status t' = PENDING"
  proof
    fix k' assume k': "k' \<in> fst ` set b'"
    show "\<exists>t'. transactions s' k' = Some t' \<and> timeStamp t' = ts \<and> status t' = PENDING"
    proof (cases "ts = timeStamp t")
      case True
      then have "b' = AList.delete k b" using b' pe' by simp
      then have "k' \<in> fst ` set b" "k' \<noteq> k" using k' keys_delete[of k b] by auto
      then show ?thesis using consistentD1(2)[OF con buc] True tr' by auto
    next
      case False
      then have old: "pendingTransactions s ts = Some b'" using b' pe' by simp
      from consistentD1(2)[OF con old k'] obtain t' where
        t': "transactions s k' = Some t'" "timeStamp t' = ts" "status t' = PENDING" by blast
      with False rec have "k' \<noteq> k" by auto
      then show ?thesis using t' tr' by simp
    qed
  qed
next
  fix k' t' assume t': "transactions s' k' = Some t'"
  show "\<exists>b'. pendingTransactions s' (timeStamp t') = Some b' \<and> (status t' = PENDING \<longrightarrow> k' \<in> fst ` set b')"
  proof (cases "k' = k")
    case True
    then have "t' = t\<lparr>status := X\<rparr>" using t' tr' by simp
    then show ?thesis using X pe' by simp
  next
    case False
    then have old: "transactions s k' = Some t'" using t' tr' by simp
    from consistentD2[OF con old] obtain b0 where
      b0: "pendingTransactions s (timeStamp t') = Some b0" "status t' = PENDING \<longrightarrow> k' \<in> fst ` set b0" by blast
    show ?thesis
    proof (cases "timeStamp t' = timeStamp t")
      case True
      then have "b0 = b" using b0 buc by simp
      then show ?thesis using True pe' b0 False keys_delete[of k b] by auto
    next
      case False
      then show ?thesis using pe' b0 by simp
    qed
  qed
qed

text \<open>What one visit of the scheduler does to a key of the bucket.\<close>

lemma scheduledJob_settles:
  assumes con: "consistent s"
    and buc: "pendingTransactions s ts = Some b"
    and key: "k \<in> fst ` set b"
  shows "\<exists>s' t X. scheduledJob ts k s = Inr s' \<and> transactions s k = Some t \<and>
     status t = PENDING \<and> (X = COMPLETED \<or> X = REJECTED) \<and>
     transactions s' = (transactions s)(k \<mapsto> t\<lparr>status := X\<rparr>) \<and>
     pendingTransactions s' = (pendingTransactions s)(ts \<mapsto> AList.delete k b) \<and>
     consistent s'"
proof -
  from consistentD1(2)[OF con buc key] obtain t where
    t: "transactions s k = Some t" "timeStamp t = ts" "status t = PENDING" by blast
  have buc': "pendingTransactions s (timeStamp t) = Some b" using buc t by simp
  have rejected: ?thesis if "executeTransaction k s = Inr (ERROR, s)"
  proof -
    let ?s' = "s\<lparr>pendingTransactions := (pendingTransactions s)(ts \<mapsto> AList.delete k b),
                 transactions := (transactions s)(k \<mapsto> t\<lparr>status := REJECTED\<rparr>)\<rparr>"
    have run: "scheduledJob ts k s = Inr ?s'"
      using that buc t by (simp add: scheduledJob_def Let_def)
    have "consistent ?s'"
      by (rule consistent_settle[OF con t(1) buc', of REJECTED]) (simp_all add: t)
    then show ?thesis using run t by auto
  qed
  show ?thesis
  proof (cases k s rule: executeTransaction_cases)
    case noId then show ?thesis using rejected by simp
  next
    case notFound then show ?thesis using rejected by simp
  next
    case (invalid t') then show ?thesis using rejected by simp
  next
    case (noBucket t') then show ?thesis using t buc by simp
  next
    case (success t' b')
    then have eq: "t' = t" "b' = b" using t buc by auto
    let ?s' = "s\<lparr>accounts := transferFunds (credit t) (debit t) (amount t) k (accounts s),
           transactions := (transactions s)(k \<mapsto> t\<lparr>status := COMPLETED\<rparr>),
           pendingTransactions := (pendingTransactions s)(timeStamp t \<mapsto> AList.delete k b),
           completedTransactions := addCompleted (timeStamp t) k (completedTransactions s)\<rparr>"
    have run: "scheduledJob ts k s = Inr ?s'"
      using success(5) eq by (simp add: scheduledJob_def)
    have "consistent ?s'"
      by (rule consistent_settle[OF con t(1) buc', of COMPLETED]) simp_all
    then show ?thesis using run t by auto
  qed
qed

lemma scheduledJobs_settle:
  assumes "consistent s"
    and "pendingTransactions s ts = Some b"
    and "distinct ks"
    and "set ks \<subseteq> fst ` set b"
  shows "\<exists>s'. scheduledJobs ts ks s = Inr s' \<and> consistent s' \<and>
     pendingTransactions s' = (pendingTransactions s)(ts \<mapsto> filter (\<lambda>p. fst p \<notin> set ks) b) \<and>
     (\<forall>k t. transactions s k = Some t \<longrightarrow>
        (if k \<in> set ks
         then status t = PENDING \<and> (\<exists>X. (X = COMPLETED \<or> X = REJECTED) \<and> transactions s' k = Some (t\<lparr>status := X\<rparr>))
         else transactions s' k = Some t)) \<and>
     dom (transactions s') = dom (transactions s)"
  using assms
proof (induction ks arbitrary: s b)
  case Nil
  then show ?case by (simp add: fun_upd_idem)
next
  case (Cons k ks)
  from Cons.prems have key: "k \<in> fst ` set b" by simp
  from scheduledJob_settles[OF Cons.prems(1,2) key] obtain s1 t X where
    s1: "scheduledJob ts k s = Inr s1" "transactions s k = Some t" "status t = PENDING"
      "X = COMPLETED \<or> X = REJECTED"
      "transactions s1 = (transactions s)(k \<mapsto> t\<lparr>status := X\<rparr>)"
      "pendingTransactions s1 = (pendingTransactions s)(ts \<mapsto> AList.delete k b)"
      "consistent s1" by blast
  have buc1: "pendingTransactions s1 ts = Some (AList.delete k b)" using s1(6) by simp
  have sub1: "set ks \<subseteq> fst ` set (AList.delete k b)"
    using Cons.prems(3,4) keys_delete[of k b] by auto
  have dis1: "distinct ks" using Cons.prems(3) by simp
  from Cons.IH[OF s1(7) buc1 dis1 sub1] obtain s' where
    s': "scheduledJobs ts ks s1 = Inr s'" "consistent s'"
      "pendingTransactions s' = (pendingTransactions s1)(ts \<mapsto> filter (\<lambda>p. fst p \<notin> set ks) (AList.delete k b))"
      "\<forall>k' t'. transactions s1 k' = Some t' \<longrightarrow>
        (if k' \<in> set ks
         then status t' = PENDING \<and> (\<exists>X. (X = COMPLETED \<or> X = REJECTED) \<and> transactions s' k' = Some (t'\<lparr>status := X\<rparr>))
         else transactions s' k' = Some t')"
      "dom (transactions s') = dom (transactions s1)" by blast
  have run: "scheduledJobs ts (k # ks) s = Inr s'" using s1(1) s'(1) by simp
  have fil: "filter (\<lambda>p. fst p \<notin> set ks) (AList.delete k b) = filter (\<lambda>p. fst p \<notin> set (k # ks)) b"
    by (induction b) (auto simp: AList.delete_eq)
  have pend: "pendingTransactions s' = (pendingTransactions s)(ts \<mapsto> filter (\<lambda>p. fst p \<notin> set (k # ks)) b)"
    using s'(3) s1(6) fil by simp
  have kn: "k \<notin> set ks" using Cons.prems(3) by simp
  have recs: "if k' \<in> set (k # ks)
         then status t' = PENDING \<and> (\<exists>X. (X = COMPLETED \<or> X = REJECTED) \<and> transactions s' k' = Some (t'\<lparr>status := X\<rparr>))
         else transactions s' k' = Some t'"
    if old: "transactions s k' = Some t'" for k' t'
  proof (cases "k' = k")
    case True
    then have "t' = t" using old s1(2) by simp
    moreover have "transactions s' k = Some (t\<lparr>status := X\<rparr>)"
      using s'(4) s1(5) kn by simp
    ultimately show ?thesis using True s1(3,4) by auto
  next
    case False
    then have "transactions s1 k' = Some t'" using old s1(5) by simp
    then show ?thesis using s'(4) False by auto
  qed
  have "dom (transactions s') = dom (transactions s)"
    using s'(5) s1(5) s1(2) by auto
  then show ?case using run s'(2) pend recs by blast
qed

section \<open>The account table under the operations\<close>





lemma storeTransaction_accounts [simp]: "accounts (storeTransaction tx s) = accounts s"
  by (simp add: storeTransaction_def Let_def)

lemma validSubmission_iff:
  "validSubmission req now s \<longleftrightarrow>
     (\<exists>time ty cr db a. reqTransactionTime req = Some (ValidDate time) \<and> reqType req = Some ty \<and>
        reqCredit req = Some cr \<and> reqDebit req = Some db \<and> reqAmount req = Some (Num a) \<and>
        (ty = REFUND \<or> ty = FUND) \<and> accounts s cr \<noteq> None \<and> accounts s db \<noteq> None \<and>
        getTime now \<le> getTime time)"
  by (auto simp: validSubmission_def split: option.splits timevalue.splits jsnumber.splits)

lemma isValidDate_iff: "isValidDate v \<longleftrightarrow> (\<exists>d. v = ValidDate d)"
  by (cases v) simp_all

lemma generateTimeStamp_None_iff: "generateTimeStamp v = None \<longleftrightarrow> \<not> isValidDate v"
  by (cases v) (simp_all add: Let_def)

lemma generateTimeStamp_valid: "\<exists>ts. generateTimeStamp (ValidDate time) = Some ts"
  by (simp add: Let_def)

text \<open>The two ways a call of \<open>addTransaction\<close> goes.\<close>

lemma addTransaction_cases:
  obtains (refused) "\<not> validSubmission req now s" "addTransaction req now newId s = Inr (ERROR, s)"
  | (stored) time ty cr db a ts where
      "validSubmission req now s"
      "reqTransactionTime req = Some (ValidDate time)" "reqType req = Some ty"
      "reqCredit req = Some cr" "reqDebit req = Some db" "reqAmount req = Some (Num a)"
      "generateTimeStamp (ValidDate time) = Some ts"
      "addTransaction req now newId s =
         (let s2 = storeTransaction \<lparr>transactionTime = time, txtype = ty, credit = cr,
                     debit = db, txid = newId, amount = a, status = PENDING, timeStamp = ts\<rparr> s
          in if generateTimeStamp (ValidDate now) = Some ts then
               (case executeScheduledJobs (ValidDate now) s2 of
                  Inl e \<Rightarrow> Inl e
                | Inr s3 \<Rightarrow> Inr (newId, s3))
             else Inr (newId, s2))"
proof (cases "validSubmission req now s")
  case False
  have "addTransaction req now newId s = Inr (ERROR, s)"
    using False unfolding validSubmission_iff
    by (auto simp: addTransaction_def allowedTransactionTypes_def
        split: option.splits timevalue.splits jsnumber.splits)
  then show ?thesis using refused False by blast
next
  case True
  then obtain time ty cr db a where v:
    "reqTransactionTime req = Some (ValidDate time)" "reqType req = Some ty"
    "reqCredit req = Some cr" "reqDebit req = Some db" "reqAmount req = Some (Num a)"
    "ty = REFUND \<or> ty = FUND" "accounts s cr \<noteq> None" "accounts s db \<noteq> None"
    "getTime now \<le> getTime time"
    unfolding validSubmission_iff by blast
  obtain ts where ts: "generateTimeStamp (ValidDate time) = Some ts"
    using generateTimeStamp_valid by blast
  have "addTransaction req now newId s =
         (let s2 = storeTransaction \<lparr>transactionTime = time, txtype = ty, credit = cr,
                     debit = db, txid = newId, amount = a, status = PENDING, timeStamp = ts\<rparr> s
          in if generateTimeStamp (ValidDate now) = Some ts then
               (case executeScheduledJobs (ValidDate now) s2 of
                  Inl e \<Rightarrow> Inl e
                | Inr s3 \<Rightarrow> Inr (newId, s3))
             else Inr (newId, s2))"
    using v ts unfolding addTransaction_def allowedTransactionTypes_def
    by (auto simp del: generateTimeStamp.simps)
  then show ?thesis using stored[OF True v(1-5) ts] by blast
qed



section \<open>Passes, submissions and reachable states\<close>

text \<open>A pass over a consistent state returns, empties the bucket it visits and settles
  every record of that bucket; the other records stay as they are.\<close>

lemma executeScheduledJobs_settles:
  assumes "consistent s"
  shows "\<exists>s'. executeScheduledJobs now s = Inr s' \<and> consistent s' \<and>
     (case pendingTransactions s (propertyKey (generateTimeStamp now)) of
        None \<Rightarrow> s' = s
      | Some b \<Rightarrow>
          pendingTransactions s' = (pendingTransactions s)(propertyKey (generateTimeStamp now) \<mapsto> []) \<and>
          (\<forall>k t. transactions s k = Some t \<longrightarrow>
             (if k \<in> fst ` set b
              then status t = PENDING \<and>
                   (\<exists>X. (X = COMPLETED \<or> X = REJECTED) \<and> transactions s' k = Some (t\<lparr>status := X\<rparr>))
              else transactions s' k = Some t))) \<and>
     dom (transactions s') = dom (transactions s)"
proof (cases "pendingTransactions s (propertyKey (generateTimeStamp now))")
  case None
  then show ?thesis using assms by (simp add: executeScheduledJobs_def)
next
  case (Some b)
  have dis: "distinct (map fst b)" using consistentD1(1)[OF assms Some] .
  have sub: "set (map fst b) \<subseteq> fst ` set b" by simp
  from scheduledJobs_settle[OF assms Some dis sub] obtain s' where
    s': "scheduledJobs (propertyKey (generateTimeStamp now)) (map fst b) s = Inr s'" "consistent s'"
      "pendingTransactions s' = (pendingTransactions s)
         (propertyKey (generateTimeStamp now) \<mapsto> filter (\<lambda>p. fst p \<notin> set (map fst b)) b)"
      "\<forall>k t. transactions s k = Some t \<longrightarrow>
        (if k \<in> set (map fst b)
         then status t = PENDING \<and> (\<exists>X. (X = COMPLETED \<or> X = REJECTED) \<and> transactions s' k = Some (t\<lparr>status := X\<rparr>))
         else transactions s' k = Some t)"
      "dom (transactions s') = dom (transactions s)" by blast
  have emp: "filter (\<lambda>p. fst p \<notin> set (map fst b)) b = []"
    by (auto simp: filter_empty_conv)
  have run: "executeScheduledJobs now s = Inr s'"
    using Some s'(1) by (simp add: executeScheduledJobs_def)
  show ?thesis using run s'(2,5) s'(3)[unfolded emp] s'(4) Some by simp
qed

lemma statusStep_refl [simp]: "statusStep a a"
  by (simp add: statusStep_def)

lemma executeScheduledJobs_statusStep:
  assumes "consistent s"
  shows "\<exists>s'. executeScheduledJobs now s = Inr s' \<and> consistent s' \<and>
     (\<forall>k t. transactions s k = Some t \<longrightarrow>
        (\<exists>t'. transactions s' k = Some t' \<and> statusStep (status t) (status t')))"
proof -
  from executeScheduledJobs_settles[OF assms, of now] obtain s' where
    s': "executeScheduledJobs now s = Inr s'" "consistent s'"
      "case pendingTransactions s (propertyKey (generateTimeStamp now)) of
        None \<Rightarrow> s' = s
      | Some b \<Rightarrow>
          pendingTransactions s' = (pendingTransactions s)(propertyKey (generateTimeStamp now) \<mapsto> []) \<and>
          (\<forall>k t. transactions s k = Some t \<longrightarrow>
             (if k \<in> fst ` set b
              then status t = PENDING \<and>
                   (\<exists>X. (X = COMPLETED \<or> X = REJECTED) \<and> transactions s' k = Some (t\<lparr>status := X\<rparr>))
              else transactions s' k = Some t))" by blast
  have "\<exists>t'. transactions s' k = Some t' \<and> statusStep (status t) (status t')"
    if old: "transactions s k = Some t" for k t
  proof (cases "pendingTransactions s (propertyKey (generateTimeStamp now))")
    case None
    then show ?thesis using s'(3) old by simp
  next
    case (Some b)
    then have "if k \<in> fst ` set b
              then status t = PENDING \<and>
                   (\<exists>X. (X = COMPLETED \<or> X = REJECTED) \<and> transactions s' k = Some (t\<lparr>status := X\<rparr>))
              else transactions s' k = Some t"
      using s'(3) old by simp
    then show ?thesis by (auto simp: statusStep_def split: if_splits)
  qed
  then show ?thesis using s'(1,2) by blast
qed

text \<open>Storing a record under an id the main table does not have keeps the tables
  consistent.\<close>

lemma storeTransaction_consistent:
  assumes con: "consistent s"
    and fresh: "transactions s (txid tx) = None"
    and pen: "status tx = PENDING"
  shows "consistent (storeTransaction tx s)"
proof -
  define b0 where "b0 = (case pendingTransactions s (timeStamp tx) of None \<Rightarrow> [] | Some b \<Rightarrow> b)"
  have notin: "txid tx \<notin> fst ` set b0"
  proof (cases "pendingTransactions s (timeStamp tx)")
    case None
    then show ?thesis by (simp add: b0_def)
  next
    case (Some b)
    then show ?thesis using consistentD1(2)[OF con Some, of "txid tx"] fresh by (auto simp: b0_def)
  qed
  have dis0: "distinct (map fst b0)"
    using consistentD1(1)[OF con] by (auto simp: b0_def split: option.splits)
  have keys: "fst ` set (AList.update (txid tx) tx b0) = insert (txid tx) (fst ` set b0)"
    using update_keys[of "txid tx" tx b0] notin
    by (metis (no_types, lifting) list.set_map set_append list.simps(15) empty_set Un_insert_right sup_bot.right_neutral)
  have pe: "pendingTransactions (storeTransaction tx s) =
      (pendingTransactions s)(timeStamp tx \<mapsto> AList.update (txid tx) tx b0)"
    by (simp add: storeTransaction_def Let_def b0_def)
  have tr: "transactions (storeTransaction tx s) = (transactions s)(txid tx \<mapsto> tx)"
    by (simp add: storeTransaction_def Let_def)
  show ?thesis
    unfolding consistent_def
  proof (intro conjI allI impI)
    fix ts b assume b: "pendingTransactions (storeTransaction tx s) ts = Some b"
    show "distinct (map fst b)"
    proof (cases "ts = timeStamp tx")
      case True
      then have "b = AList.update (txid tx) tx b0" using b pe by simp
      then show ?thesis using dis0 by (simp add: distinct_update)
    next
      case False
      then have "pendingTransactions s ts = Some b" using b pe by simp
      then show ?thesis using consistentD1(1)[OF con] by blast
    qed
  next
    fix ts b assume b: "pendingTransactions (storeTransaction tx s) ts = Some b"
    show "\<forall>k\<in>fst ` set b. \<exists>t. transactions (storeTransaction tx s) k = Some t \<and> timeStamp t = ts \<and> status t = PENDING"
    proof
      fix k assume k: "k \<in> fst ` set b"
      show "\<exists>t. transactions (storeTransaction tx s) k = Some t \<and> timeStamp t = ts \<and> status t = PENDING"
      proof (cases "k = txid tx")
        case True
        have "ts = timeStamp tx"
        proof (rule ccontr)
          assume "ts \<noteq> timeStamp tx"
          then have "pendingTransactions s ts = Some b" using b pe by simp
          from consistentD1(2)[OF con this k] show False using fresh True by auto
        qed
        then show ?thesis using True tr pen by simp
      next
        case False
        have "\<exists>t. transactions s k = Some t \<and> timeStamp t = ts \<and> status t = PENDING"
        proof (cases "ts = timeStamp tx")
          case True
          then have "b = AList.update (txid tx) tx b0" using b pe by simp
          then have kb0: "k \<in> fst ` set b0" using k keys False by simp
          then obtain b1 where "pendingTransactions s (timeStamp tx) = Some b1" "b0 = b1"
            by (cases "pendingTransactions s (timeStamp tx)") (auto simp: b0_def)
          then show ?thesis using consistentD1(2)[OF con, of "timeStamp tx" b1 k] kb0 True by simp
        next
          case False
          then have "pendingTransactions s ts = Some b" using b pe by simp
          from consistentD1(2)[OF con this k] show ?thesis .
        qed
        then show ?thesis using False tr by simp
      qed
    qed
  next
    fix k t assume t: "transactions (storeTransaction tx s) k = Some t"
    show "\<exists>b. pendingTransactions (storeTransaction tx s) (timeStamp t) = Some b \<and>
        (status t = PENDING \<longrightarrow> k \<in> fst ` set b)"
    proof (cases "k = txid tx")
      case True
      then have "t = tx" using t tr by simp
      then show ?thesis using True pe keys by simp
    next
      case False
      then have old: "transactions s k = Some t" using t tr by simp
      from consistentD2[OF con old] obtain b where
        b: "pendingTransactions s (timeStamp t) = Some b" "status t = PENDING \<longrightarrow> k \<in> fst ` set b" by blast
      show ?thesis
      proof (cases "timeStamp t = timeStamp tx")
        case True
        then have "b0 = b" using b(1) by (simp add: b0_def)
        then show ?thesis using True pe keys b(2) by simp
      next
        case False
        then show ?thesis using pe b by simp
      qed
    qed
  qed
qed

lemma executeTransaction_consistent:
  assumes con: "consistent s"
  shows "\<exists>r s'. executeTransaction k s = Inr (r, s') \<and> consistent s' \<and>
     dom (transactions s') = dom (transactions s) \<and>
     (\<forall>k' t. transactions s k' = Some t \<longrightarrow>
        (\<exists>t'. transactions s' k' = Some t' \<and> (status t' = status t \<or> status t' = COMPLETED)))"
proof (cases k s rule: executeTransaction_cases)
  case (noBucket t)
  then show ?thesis using consistentD2[OF con noBucket(2)] by simp
next
  case (success t b)
  let ?s' = "s\<lparr>accounts := transferFunds (credit t) (debit t) (amount t) k (accounts s),
           transactions := (transactions s)(k \<mapsto> t\<lparr>status := COMPLETED\<rparr>),
           pendingTransactions := (pendingTransactions s)(timeStamp t \<mapsto> AList.delete k b),
           completedTransactions := addCompleted (timeStamp t) k (completedTransactions s)\<rparr>"
  have "consistent ?s'"
    by (rule consistent_settle[OF con success(2,4), of COMPLETED]) simp_all
  moreover have "dom (transactions ?s') = dom (transactions s)" using success(2) by auto
  ultimately show ?thesis using success(5) success(2) by auto
qed (use con in auto)

lemma addTransaction_consistent:
  assumes con: "consistent s" and fresh: "transactions s newId = None"
  shows "\<exists>r s'. addTransaction req now newId s = Inr (r, s') \<and> consistent s' \<and>
     (\<forall>k t. transactions s k = Some t \<longrightarrow>
        (\<exists>t'. transactions s' k = Some t' \<and> statusStep (status t) (status t')))"
proof (cases rule: addTransaction_cases[where req=req and now=now and s=s and newId=newId])
  case refused
  then show ?thesis using con by auto
next
  case (stored time ty cr db a ts)
  define tx where "tx = \<lparr>transactionTime = time, txtype = ty, credit = cr,
                     debit = db, txid = newId, amount = a, status = PENDING, timeStamp = ts\<rparr>"
  have con2: "consistent (storeTransaction tx s)"
    by (rule storeTransaction_consistent[OF con]) (simp_all add: tx_def fresh)
  have tr2: "transactions (storeTransaction tx s) = (transactions s)(newId \<mapsto> tx)"
    by (simp add: storeTransaction_def Let_def tx_def)
  have keep2: "transactions (storeTransaction tx s) k = Some t" if "transactions s k = Some t" for k t
    using that fresh tr2 by auto
  show ?thesis
  proof (cases "generateTimeStamp (ValidDate now) = Some ts")
    case False
    then have "addTransaction req now newId s = Inr (newId, storeTransaction tx s)"
      using stored(8) by (simp add: Let_def tx_def)
    then show ?thesis using con2 keep2 by auto
  next
    case True
    from executeScheduledJobs_statusStep[OF con2, of "ValidDate now"] obtain s3 where
      s3: "executeScheduledJobs (ValidDate now) (storeTransaction tx s) = Inr s3" "consistent s3"
        "\<forall>k t. transactions (storeTransaction tx s) k = Some t \<longrightarrow>
          (\<exists>t'. transactions s3 k = Some t' \<and> statusStep (status t) (status t'))" by blast
    have "addTransaction req now newId s = Inr (newId, s3)"
      using stored(8) True s3(1) by (simp add: Let_def tx_def del: generateTimeStamp.simps)
    then show ?thesis using s3(2,3) keep2 by auto
  qed
qed

lemma reachable_consistent:
  assumes "reachable s"
  shows "consistent s"
  using assms
proof (induction rule: reachable.induct)
  case start
  then show ?case by (simp add: consistent_def initialState_def)
next
  case (init s)
  then show ?case by (simp add: consistent_def init_def)
next
  case (add s newId req now)
  from addTransaction_consistent[OF add.IH add.hyps(2), of req now] show ?case
    by (auto simp: stateAfter_def)
next
  case (exec s transactionId)
  from executeTransaction_consistent[OF exec.IH, of transactionId] show ?case
    by (auto simp: stateAfter_def)
next
  case (tick s now)
  from executeScheduledJobs_statusStep[OF tick.IH, of "ValidDate now"] show ?case
    by (auto simp: stateAfterPass_def)
qed

section \<open>The sample runs\<close>


lemma timeStamp_clockNow: "generateTimeStamp (ValidDate clockNow) = Some ''24-01-01-10-30''"
  by (simp add: clockNow_def formatTimeStampNumber_def numberToString_def)

lemma timeStamp_nextMinute: "generateTimeStamp (ValidDate nextMinute) = Some ''24-01-01-10-31''"
  by (simp add: nextMinute_def formatTimeStampNumber_def numberToString_def)

lemmas sample_defs = fundRequest_def init_def initialState_def allowedTransactionTypes_def
  FUND_def REFUND_def PENDING_def COMPLETED_def REJECTED_def ERROR_def INITIAL_BALANCE_def
  stateAfter_def stateAfterPass_def propertyKey_def

lemmas run_defs = addTransaction_def storeTransaction_def executeScheduledJobs_def
  scheduledJob_def executeTransaction_def validateTransaction_def transferFunds_def
  addCompleted_def Let_def

lemma waitingState_eq:
  "waitingState = \<lparr>accounts = [''A'' \<mapsto> \<lparr>balance = 100, pastTransactions = []\<rparr>,
        ''B'' \<mapsto> \<lparr>balance = 0, pastTransactions = []\<rparr>],
     transactions = [''t1'' \<mapsto> \<lparr>transactionTime = nextMinute, txtype = ''fund'', credit = ''A'',
        debit = ''B'', txid = ''t1'', amount = 10, status = ''pending'', timeStamp = ''24-01-01-10-31''\<rparr>],
     pendingTransactions = [''24-01-01-10-31'' \<mapsto> [(''t1'', \<lparr>transactionTime = nextMinute,
        txtype = ''fund'', credit = ''A'', debit = ''B'', txid = ''t1'', amount = 10,
        status = ''pending'', timeStamp = ''24-01-01-10-31''\<rparr>)]],
     completedTransactions = Map.empty\<rparr>"
  unfolding waitingState_def
  by (simp add: run_defs sample_defs timeStamp_nextMinute timeStamp_clockNow
      del: generateTimeStamp.simps) (simp add: nextMinute_def clockNow_def)

lemma reachable_waitingState: "reachable waitingState"
  unfolding waitingState_def
  by (rule reachable.add[OF reachable.init[OF reachable.start]]) (simp add: init_def initialState_def)



section \<open>The scheduler run twice, and insufficient funds\<close>




text \<open>
  Claim C5. Let a transaction be listed in a bucket of the pending index, with a record in
  the main table whose amount is greater than the balance of its credit account. A direct
  call of \<open>executeTransaction\<close> returns \<open>ERROR\<close> and changes nothing. The scheduler's
  visit of the entry returns without throwing, leaves the account table (balances and
  applied-transaction lists) as it was and writes \<open>REJECTED\<close> into the record; so does a
  whole pass over the bucket when the entry is the only one in it.
\<close>

theorem insufficient_funds_rejected:
  assumes rec: "transactions s k = Some t"
    and acc: "accounts s (credit t) = Some c"
    and low: "balance c < amount t"
    and buc: "pendingTransactions s ts = Some b"
    and key: "k \<in> fst ` set b"
  shows "executeTransaction k s = Inr (ERROR, s) \<and>
     (\<exists>s'. scheduledJob ts k s = Inr s' \<and> accounts s' = accounts s \<and>
        transactions s' k = Some (t\<lparr>status := REJECTED\<rparr>)) \<and>
     (map fst b = [k] \<and> propertyKey (generateTimeStamp now) = ts \<longrightarrow>
        (\<exists>s'. executeScheduledJobs now s = Inr s' \<and> accounts s' = accounts s \<and>
           transactions s' k = Some (t\<lparr>status := REJECTED\<rparr>)))"
proof -
  have inv: "\<not> validateTransaction (Some t) s"
    using acc low by (auto simp: validateTransaction_def split: option.splits)
  have direct: "executeTransaction k s = Inr (ERROR, s)"
    using rec inv by (simp add: executeTransaction_def)
  let ?s' = "s\<lparr>pendingTransactions := (pendingTransactions s)(ts \<mapsto> AList.delete k b),
               transactions := (transactions s)(k \<mapsto> t\<lparr>status := REJECTED\<rparr>)\<rparr>"
  have job: "scheduledJob ts k s = Inr ?s'"
    using direct buc rec by (simp add: scheduledJob_def Let_def)
  have pass: "executeScheduledJobs now s = Inr ?s'"
    if "map fst b = [k]" "propertyKey (generateTimeStamp now) = ts"
    using that buc job by (simp add: executeScheduledJobs_def)
  show ?thesis using direct job pass by auto
qed


text \<open>After \<open>init\<close>, a transfer of 10 from B, whose balance is 0, to A is stored as
  pending in the bucket of 10:30.\<close>

theorem insufficient_funds_rejected_witness:
  "executeTransaction ''t1'' (storeTransaction ((sampleTransfer ''t1'')\<lparr>credit := ''B'', debit := ''A''\<rparr>) (init initialState))
     = Inr (ERROR, storeTransaction ((sampleTransfer ''t1'')\<lparr>credit := ''B'', debit := ''A''\<rparr>) (init initialState)) \<and>
   (\<exists>s'. executeScheduledJobs (ValidDate clockNow)
       (storeTransaction ((sampleTransfer ''t1'')\<lparr>credit := ''B'', debit := ''A''\<rparr>) (init initialState)) = Inr s' \<and>
     accounts s' = accounts (init initialState) \<and>
     map_option status (transactions s' ''t1'') = Some REJECTED)"
proof -
  let ?t = "(sampleTransfer ''t1'')\<lparr>credit := ''B'', debit := ''A''\<rparr>"
  let ?s = "storeTransaction ?t (init initialState)"
  have 1: "transactions ?s ''t1'' = Some ?t"
    by (simp add: storeTransaction_def sampleTransfer_def Let_def)
  have 2: "accounts ?s (credit ?t) = Some \<lparr>balance = 0, pastTransactions = []\<rparr>"
    by (simp add: init_def)
  have 3: "balance \<lparr>balance = 0, pastTransactions = []\<rparr> < amount ?t"
    by (simp add: sampleTransfer_def)
  have 4: "pendingTransactions ?s ''24-01-01-10-30'' = Some [(''t1'', ?t)]"
    by (simp add: storeTransaction_def sampleTransfer_def Let_def init_def initialState_def)
  have 5: "''t1'' \<in> fst ` set [(''t1'', ?t)]" by simp
  have 6: "map fst [(''t1'', ?t)] = [''t1''] \<and>
     propertyKey (generateTimeStamp (ValidDate clockNow)) = ''24-01-01-10-30''"
    by (simp add: timeStamp_clockNow propertyKey_def del: generateTimeStamp.simps)
  from insufficient_funds_rejected[OF 1 2 3 4 5, of "ValidDate clockNow"] 6
  show ?thesis by auto
qed

section \<open>Submissions\<close>




lemma reachable_init: "reachable (init initialState)"
  by (rule reachable.init[OF reachable.start])


text \<open>
  Claim C8. In every reachable state, an id is listed in some bucket of the pending index
  if and only if the main table has a record for it whose status is \<open>PENDING\<close>; so a
  record that is \<open>COMPLETED\<close> or \<open>REJECTED\<close> is in no bucket.
\<close>

theorem pending_index_iff_status_pending:
  assumes "reachable s"
  shows "k \<in> pendingIds s \<longleftrightarrow> (\<exists>t. transactions s k = Some t \<and> status t = PENDING)"
proof
  have con: "consistent s" using assms by (rule reachable_consistent)
  {
    assume "k \<in> pendingIds s"
    then obtain ts b where "pendingTransactions s ts = Some b" "k \<in> fst ` set b"
      by (auto simp: pendingIds_def)
    from consistentD1(2)[OF con this] show "\<exists>t. transactions s k = Some t \<and> status t = PENDING"
      by blast
  next
    assume "\<exists>t. transactions s k = Some t \<and> status t = PENDING"
    then obtain t where t: "transactions s k = Some t" "status t = PENDING" by blast
    from consistentD2[OF con t(1)] t(2) show "k \<in> pendingIds s"
      by (auto simp: pendingIds_def)
  }
qed

theorem pending_index_iff_status_pending_witness:
  "reachable waitingState \<and> ''t1'' \<in> pendingIds waitingState \<and>
   (\<exists>t. transactions waitingState ''t1'' = Some t \<and> status t = PENDING)"
proof -
  have "\<exists>t. transactions waitingState ''t1'' = Some t \<and> status t = PENDING"
    unfolding waitingState_eq by (simp add: PENDING_def)
  then show ?thesis
    using pending_index_iff_status_pending[OF reachable_waitingState, of "''t1''"]
      reachable_waitingState by blast
qed

section \<open>Status transitions\<close>







section \<open>Applied-transaction lists, entries without a record, self-transfers\<close>

text \<open>What lines 219 to 224 leave in the two lists when the accounts differ: the list of
  the debit account is rebuilt from the list of the credit account.\<close>

lemma transferFunds_lists:
  assumes "acc0 cr = Some c" and "acc0 db = Some d" and "cr \<noteq> db"
  shows "map_option pastTransactions (transferFunds cr db amt i acc0 cr)
           = Some (filter (\<lambda>j. j \<noteq> i) (pastTransactions c) @ [i]) \<and>
         map_option pastTransactions (transferFunds cr db amt i acc0 db)
           = Some (filter (\<lambda>j. j \<noteq> i) (pastTransactions c) @ [i])"
  using assms by (simp add: transferFunds_def Let_def)

lemma selfState_eq:
  "selfState = \<lparr>accounts = [''A'' \<mapsto> \<lparr>balance = 100, pastTransactions = [''t1'', ''t1'']\<rparr>,
        ''B'' \<mapsto> \<lparr>balance = 0, pastTransactions = []\<rparr>],
     transactions = [''t1'' \<mapsto> \<lparr>transactionTime = clockNow, txtype = ''fund'', credit = ''A'',
        debit = ''A'', txid = ''t1'', amount = 10, status = ''completed'', timeStamp = ''24-01-01-10-30''\<rparr>],
     pendingTransactions = [''24-01-01-10-30'' \<mapsto> []],
     completedTransactions = [''24-01-01-10-30'' \<mapsto> [''t1'']]\<rparr>"
  unfolding selfState_def
  by (simp add: run_defs sample_defs timeStamp_clockNow fun_upd_twist del: generateTimeStamp.simps)

lemma reachable_selfState: "reachable selfState"
  unfolding selfState_def
  by (rule reachable.add[OF reachable_init]) (simp add: init_def initialState_def)

lemma reachable_selfThenState: "reachable selfThenState"
  unfolding selfThenState_def
  by (rule reachable.add[OF reachable_selfState]) (simp add: selfState_eq)

text \<open>
  Claim C4 fails on the code. From the state after \<open>init\<close>, the transfer \<open>t1\<close> of 10 from A
  to A completes and leaves \<open>t1\<close> twice in the list of A. The transfer \<open>t2\<close> of 10 from A
  to B then completes and leaves in the list of B, which was empty, the entries of A
  followed by \<open>t2\<close>.
\<close>

theorem applied_lists_after_transfers:
  "reachable selfThenState \<and>
   map_option status (transactions selfState ''t1'') = Some COMPLETED \<and>
   map_option pastTransactions (accounts selfState ''A'') = Some [''t1'', ''t1''] \<and>
   map_option pastTransactions (accounts selfState ''B'') = Some [] \<and>
   map_option status (transactions selfThenState ''t2'') = Some COMPLETED \<and>
   map_option pastTransactions (accounts selfThenState ''A'') = Some [''t1'', ''t1'', ''t2''] \<and>
   map_option pastTransactions (accounts selfThenState ''B'') = Some [''t1'', ''t1'', ''t2'']"
proof -
  have 1: "map_option status (transactions selfState ''t1'') = Some COMPLETED \<and>
     map_option pastTransactions (accounts selfState ''A'') = Some [''t1'', ''t1''] \<and>
     map_option pastTransactions (accounts selfState ''B'') = Some []"
    unfolding selfState_eq by (simp add: COMPLETED_def)
  have 2: "map_option status (transactions selfThenState ''t2'') = Some COMPLETED \<and>
     map_option pastTransactions (accounts selfThenState ''A'') = Some [''t1'', ''t1'', ''t2''] \<and>
     map_option pastTransactions (accounts selfThenState ''B'') = Some [''t1'', ''t1'', ''t2'']"
    unfolding selfThenState_def selfState_eq
    by (simp add: run_defs sample_defs timeStamp_clockNow del: generateTimeStamp.simps)
  show ?thesis using 1 2 reachable_selfThenState by blast
qed





end
